theory Spec2Isabelle
  imports
    Complex_Main
    "HOL-Library.Sublist"
    "HOL-Library.Multiset"
    "HOL-Library.Char_ord"
    "HOL-Library.List_Lexorder"
    "HOL-Library.Product_Lexorder"
    "HOL-Library.Option_ord"
begin

section \<open>Errors\<close>

text \<open>
  The notebook raises through pandas and numpy only: a missing column or label is a
  \<open>KeyError\<close>, a column index past the width of an array an \<open>IndexError\<close>, a column
  assignment of the wrong length a \<open>ValueError\<close>. \<open>DegenerateLabelError\<close> is the
  failure the specification names for the ranking metric.
\<close>

datatype error = KeyError | IndexError | ValueError | DegenerateLabelError

section \<open>Label derivation\<close>

subsection \<open>Rows of the data frame\<close>

text \<open>
  A cell of a pandas row is dynamically typed: a float (the finding columns, with
  \<open>NaN\<close> for a blank), a string (\<open>Path\<close>, \<open>patient\<close>, \<open>study\<close>) or a boolean
  (\<open>train_valid\<close>). A row maps column names to cells; \<open>row[feature]\<close> on a column
  the row does not have raises \<open>KeyError\<close>.
\<close>

datatype pyval = Num real | NaN | Str string | Bool bool

type_synonym row = "string \<rightharpoonup> pyval"

text \<open>Python's \<open>v == c\<close> for a numeric literal \<open>c\<close>: \<open>True == 1\<close> holds, \<open>nan\<close> equals
  nothing, a string equals no number.\<close>

fun py_eq :: "pyval \<Rightarrow> real \<Rightarrow> bool" where
  "py_eq (Num x) c = (x = c)"
| "py_eq NaN c = False"
| "py_eq (Str s) c = False"
| "py_eq (Bool b) c = ((if b then 1 else 0) = c)"

text \<open>\<open>v in [c1, c2, ...]\<close> on a list of numeric literals.\<close>

definition py_in :: "pyval \<Rightarrow> real list \<Rightarrow> bool" where
  "py_in v cs = list_ex (py_eq v) cs"

text \<open>The cells a finding column read from the table holds: a number or a blank.\<close>

fun label_cell :: "pyval \<Rightarrow> bool" where
  "label_cell (Num x) = True"
| "label_cell NaN = True"
| "label_cell (Str s) = False"
| "label_cell (Bool b) = False"

definition u_one_features :: "string list" where
  "u_one_features = [''Atelectasis'', ''Edema'']"

definition u_zero_features :: "string list" where
  "u_zero_features = [''Cardiomegaly'', ''Consolidation'', ''Pleural Effusion'']"

subsection \<open>\<open>feature_string\<close>\<close>

text \<open>The two loops of \<open>feature_string\<close>, each appending to \<open>feature_list\<close>.\<close>

fun u_one_loop :: "row \<Rightarrow> string list \<Rightarrow> string list \<Rightarrow> error + string list" where
  "u_one_loop r [] feature_list = Inr feature_list"
| "u_one_loop r (feature # rest) feature_list =
     (case r feature of
        None \<Rightarrow> Inl KeyError
      | Some v \<Rightarrow>
          u_one_loop r rest
            (if py_in v [-1, 1] then feature_list @ [feature] else feature_list))"

fun u_zero_loop :: "row \<Rightarrow> string list \<Rightarrow> string list \<Rightarrow> error + string list" where
  "u_zero_loop r [] feature_list = Inr feature_list"
| "u_zero_loop r (feature # rest) feature_list =
     (case r feature of
        None \<Rightarrow> Inl KeyError
      | Some v \<Rightarrow>
          u_zero_loop r rest
            (if py_eq v 1 then feature_list @ [feature] else feature_list))"

text \<open>The value of \<open>feature_list\<close> when \<open>feature_string\<close> reaches its \<open>return\<close>.\<close>

definition feature_list :: "row \<Rightarrow> error + string list" where
  "feature_list r =
     (case u_one_loop r u_one_features [] of
        Inl e \<Rightarrow> Inl e
      | Inr fl \<Rightarrow> u_zero_loop r u_zero_features fl)"

text \<open>\<open>sep.join(xs)\<close>.\<close>

fun join :: "string \<Rightarrow> string list \<Rightarrow> string" where
  "join sep [] = []"
| "join sep [x] = x"
| "join sep (x # y # ys) = x @ sep @ join sep (y # ys)"

definition feature_string :: "row \<Rightarrow> error + string" where
  "feature_string r =
     (case feature_list r of
        Inl e \<Rightarrow> Inl e
      | Inr fl \<Rightarrow> Inr (join '';'' fl))"

text \<open>
  \<open>full_df.apply(feature_string, axis = 1).fillna('')\<close>: the function is applied to the
  rows in order, the first exception aborts the whole call, and a missing entry of the
  resulting column is replaced by the empty string.
\<close>

fun apply_rows :: "(row \<Rightarrow> error + 'a) \<Rightarrow> row list \<Rightarrow> error + 'a option list" where
  "apply_rows f [] = Inr []"
| "apply_rows f (r # rs) =
     (case f r of
        Inl e \<Rightarrow> Inl e
      | Inr x \<Rightarrow> (case apply_rows f rs of Inl e \<Rightarrow> Inl e | Inr xs \<Rightarrow> Inr (Some x # xs)))"

definition fillna :: "'a \<Rightarrow> 'a option list \<Rightarrow> 'a list" where
  "fillna d col = map (\<lambda>c. case c of None \<Rightarrow> d | Some x \<Rightarrow> x) col"

definition feature_string_column :: "row list \<Rightarrow> error + string list" where
  "feature_string_column full_df =
     (case apply_rows feature_string full_df of
        Inl e \<Rightarrow> Inl e
      | Inr col \<Rightarrow> Inr (fillna '''' col))"

section \<open>Patient and study identifiers\<close>

text \<open>
  Python's \<open>s.split(sep, n)\<close> for a one-character separator and \<open>n > 0\<close>: at most
  \<open>n\<close> splits, so at most \<open>n + 1\<close> pieces; the empty string gives one empty piece.
\<close>

fun str_split :: "char \<Rightarrow> nat \<Rightarrow> string \<Rightarrow> string list" where
  "str_split sep n [] = [[]]"
| "str_split sep 0 (c # s) = [c # s]"
| "str_split sep (Suc n) (c # s) =
     (if c = sep then [] # str_split sep n s
      else (case str_split sep (Suc n) s of
              [] \<Rightarrow> [[c]]
            | p # ps \<Rightarrow> (c # p) # ps))"

text \<open>
  \<open>Series.str.split(sep, n, True)\<close>: with \<open>expand = True\<close> the pieces are spread over
  the columns \<open>0, 1, ...\<close> of a new frame, as many as the longest row has pieces, and a
  shorter row is padded with missing values. The frame is its number of columns and
  its rows.
\<close>

definition str_split_expand :: "char \<Rightarrow> nat \<Rightarrow> string list \<Rightarrow> nat \<times> string option list list" where
  "str_split_expand sep n col =
     (let parts = map (str_split sep n) col;
          w = fold max (map length parts) 0
      in (w, map (\<lambda>p. map Some p @ replicate (w - length p) None) parts))"

text \<open>\<open>frame[k]\<close>: the column labelled \<open>k\<close>, a \<open>KeyError\<close> when the frame has none.\<close>

definition frame_column :: "nat \<Rightarrow> nat \<times> 'a option list list \<Rightarrow> error + 'a option list" where
  "frame_column k fr =
     (if k < fst fr then Inr (map (\<lambda>r. if k < length r then r ! k else None) (snd fr))
      else Inl KeyError)"

text \<open>\<open>df.Path.str.split('/',3,True)[2]\<close> and \<open>df.Path.str.split('/',4,True)[3]\<close>.\<close>

definition patient_column :: "string list \<Rightarrow> error + string option list" where
  "patient_column Path = frame_column 2 (str_split_expand CHR ''/'' 3 Path)"

definition study_column :: "string list \<Rightarrow> error + string option list" where
  "study_column Path = frame_column 3 (str_split_expand CHR ''/'' 4 Path)"

section \<open>Study-level aggregation\<close>

text \<open>
  What \<open>groupby(['patient','study'])[learn.data.classes]\<close> reads of a row: the two key
  columns and the cells of the class columns, in the order of \<open>learn.data.classes\<close>.
  The cells are binary indicators in the ground-truth frame and scores in the
  prediction frame; \<open>max\<close> only needs them ordered. A column with blanks is the
  instance where a cell is an \<open>option\<close> and \<open>None\<close>, the blank, is below every
  value: the maximum of a group skips its blanks.
\<close>

record 'a image_row =
  patient :: "string option"
  study :: "string option"
  vals :: "'a list"

text \<open>The group key of a row; \<open>groupby\<close> drops a row whose key has a missing part.\<close>

definition row_key :: "'a image_row \<Rightarrow> (string \<times> string) option" where
  "row_key r =
     (case patient r of
        None \<Rightarrow> None
      | Some p \<Rightarrow> (case study r of None \<Rightarrow> None | Some s \<Rightarrow> Some (p, s)))"

text \<open>
  The group keys, each once, in sorted order (\<open>groupby\<close> sorts by default). Keys
  compare as Python tuples of strings do: pairs lexicographically, strings
  lexicographically by character code.
\<close>

definition group_keys :: "'a image_row list \<Rightarrow> (string \<times> string) list" where
  "group_keys df = sort (remdups (List.map_filter row_key df))"

definition group_rows :: "(string \<times> string) \<Rightarrow> 'a image_row list \<Rightarrow> 'a list list" where
  "group_rows k df = map vals (filter (\<lambda>r. row_key r = Some k) df)"

text \<open>\<open>.max()\<close> on one group: the maximum of every column over the rows of the group.\<close>

definition row_max :: "'a::linorder list \<Rightarrow> 'a list \<Rightarrow> 'a list" where
  "row_max a b = map2 max a b"

fun rows_max :: "'a::linorder list list \<Rightarrow> 'a list" where
  "rows_max [] = []"
| "rows_max (r # rs) = fold (\<lambda>x acc. row_max acc x) rs r"

definition groupby_max :: "'a::linorder image_row list \<Rightarrow> ((string \<times> string) \<times> 'a list) list" where
  "groupby_max df = map (\<lambda>k. (k, rows_max (group_rows k df))) (group_keys df)"

text \<open>\<open>.values\<close>: the aggregated cells without the index.\<close>

definition values_of :: "((string \<times> string) \<times> 'a list) list \<Rightarrow> 'a list list" where
  "values_of g = map snd g"

text \<open>\<open>.reset_index()\<close>: the index becomes the columns \<open>patient\<close> and \<open>study\<close> again.\<close>

definition reset_index :: "((string \<times> string) \<times> 'a list) list \<Rightarrow> 'a image_row list" where
  "reset_index g =
     map (\<lambda>(k, v). \<lparr>patient = Some (fst k), study = Some (snd k), vals = v\<rparr>) g"

section \<open>Study-level evaluation\<close>

subsection \<open>The ranking metric\<close>

text \<open>
  Modelled from the spec: the average rank of the rank-based definition, which is part
  of \<open>roc_auc_score\<close> and missing with it. It is the rank a score gets among
  \<open>scores\<close>, counted from 1, where tied scores share the average of the ranks they
  occupy: a score with \<open>l\<close> smaller scores and \<open>e\<close> equal
  ones (itself included) occupies the ranks \<open>l + 1, ..., l + e\<close>.
\<close>

definition avg_rank :: "real list \<Rightarrow> real \<Rightarrow> real" where
  "avg_rank scores s =
     real (length (filter (\<lambda>t. t < s) scores))
       + (real (length (filter (\<lambda>t. t = s) scores)) + 1) / 2"

text \<open>
  Modelled from the spec: \<open>roc_auc_score\<close> is imported from \<open>sklearn.metrics\<close> and its
  code is not part of the repository. The specification describes it as the area under
  the ROC curve between a binary ground-truth indicator vector and a score vector, by
  the rank-based definition with average ranks for tied scores, and as failing with
  \<open>DegenerateLabelError\<close> when the ground truth is all-positive or all-negative. The
  rank-based area is the rank sum of the positives, less its least possible value,
  over the number of positive-negative pairs.
\<close>

definition roc_auc_score :: "bool list \<Rightarrow> real list \<Rightarrow> error + real" where
  "roc_auc_score y_true y_score =
     (let pairs = zip y_true y_score;
          scores = map snd pairs;
          pos = map snd (filter fst pairs);
          neg = map snd (filter (\<lambda>p. \<not> fst p) pairs);
          n_pos = real (length pos);
          n_neg = real (length neg)
      in if pos = [] \<or> neg = [] then Inl DegenerateLabelError
         else Inr ((sum_list (map (avg_rank scores) pos) - n_pos * (n_pos + 1) / 2)
                     / (n_pos * n_neg)))"

subsection \<open>\<open>validation_eval\<close>\<close>

definition chexpert_targets :: "string list" where
  "chexpert_targets =
     [''Atelectasis'', ''Cardiomegaly'', ''Consolidation'', ''Edema'', ''Pleural Effusion'']"

text \<open>
  \<open>a[:,i]\<close> on a two-dimensional array of \<open>ncols\<close> columns: an \<open>IndexError\<close> when the
  array has no column \<open>i\<close>.
\<close>

definition matrix_column :: "nat \<Rightarrow> nat \<Rightarrow> 'a list list \<Rightarrow> error + 'a list" where
  "matrix_column ncols i a =
     (if i < ncols \<and> list_all (\<lambda>r. i < length r) a then Inr (map (\<lambda>r. r ! i) a)
      else Inl IndexError)"

text \<open>
  The loop \<open>for i, c in enumerate(learn.data.classes): preds_df[c] = preds[:,i]\<close>.
  Assigning a column of the wrong length to a frame is a \<open>ValueError\<close>. The class
  columns of \<open>preds_df\<close> are filled in the order of the classes, so that after the loop
  they hold the scores in the order in which the \<open>groupby\<close> selects them.
\<close>

fun assign_preds ::
  "nat \<Rightarrow> string list \<Rightarrow> nat \<Rightarrow> real list list \<Rightarrow> real image_row list
     \<Rightarrow> error + real image_row list" where
  "assign_preds ncols [] i preds preds_df = Inr preds_df"
| "assign_preds ncols (c # cs) i preds preds_df =
     (case matrix_column ncols i preds of
        Inl e \<Rightarrow> Inl e
      | Inr col \<Rightarrow>
          if length col \<noteq> length preds_df then Inl ValueError
          else assign_preds ncols cs (Suc i) preds
                 (map2 (\<lambda>r x. r\<lparr>vals := vals r @ [x]\<rparr>) preds_df col))"

text \<open>
  The comprehension \<open>{data.classes[i]: roc_auc_score(acts[:,i],preds[:,i]) for i in ...}\<close>;
  the dictionary is kept as the list of its items in insertion order.
\<close>

fun auc_loop ::
  "string list \<Rightarrow> bool list list \<Rightarrow> real list list \<Rightarrow> nat list
     \<Rightarrow> error + (string \<times> real) list" where
  "auc_loop classes acts preds [] = Inr []"
| "auc_loop classes acts preds (i # rest) =
     (if \<not> i < length classes then Inl IndexError
      else case matrix_column (length classes) i acts of
        Inl e \<Rightarrow> Inl e
      | Inr a \<Rightarrow>
     (case matrix_column (length classes) i preds of
        Inl e \<Rightarrow> Inl e
      | Inr p \<Rightarrow>
     (case roc_auc_score a p of
        Inl e \<Rightarrow> Inl e
      | Inr auc \<Rightarrow>
     (case auc_loop classes acts preds rest of
        Inl e \<Rightarrow> Inl e
      | Inr scores \<Rightarrow> Inr ((classes ! i, auc) # scores)))))"

text \<open>
  \<open>validation_eval\<close> up to \<open>auc_scores\<close>, from which the printed report is formatted.
  Its inputs are the class names \<open>learn.data.classes\<close>, the validation frame
  \<open>full_valid_df\<close> and the score tensor \<open>learn.get_preds(...)[0]\<close>, which has one column
  per class.
\<close>

definition validation_eval ::
  "string list \<Rightarrow> bool image_row list \<Rightarrow> real list list \<Rightarrow> error + (string \<times> real) list" where
  "validation_eval classes full_valid_df valid_preds =
     (let acts = values_of (groupby_max full_valid_df);
          preds_df = map (\<lambda>r. \<lparr>patient = patient r, study = study r, vals = []\<rparr>) full_valid_df
      in case assign_preds (length classes) classes 0 valid_preds preds_df of
           Inl e \<Rightarrow> Inl e
         | Inr preds_df \<Rightarrow>
             auc_loop classes acts (values_of (groupby_max preds_df))
               [0 ..< length chexpert_targets])"

section \<open>Properties of the label derivation\<close>

lemma u_one_loop_eq:
  "u_one_loop r fs acc =
     (if \<forall>f\<in>set fs. r f \<noteq> None
      then Inr (acc @ filter (\<lambda>f. py_in (the (r f)) [-1, 1]) fs)
      else Inl KeyError)"
  by (induction fs arbitrary: acc) (auto split: option.splits)

lemma u_zero_loop_eq:
  "u_zero_loop r fs acc =
     (if \<forall>f\<in>set fs. r f \<noteq> None
      then Inr (acc @ filter (\<lambda>f. py_eq (the (r f)) 1) fs)
      else Inl KeyError)"
  by (induction fs arbitrary: acc) (auto split: option.splits)

lemma feature_list_eq:
  "feature_list r =
     (if \<forall>f\<in>set (u_one_features @ u_zero_features). r f \<noteq> None
      then Inr (filter (\<lambda>f. py_in (the (r f)) [-1, 1]) u_one_features
                  @ filter (\<lambda>f. py_eq (the (r f)) 1) u_zero_features)
      else Inl KeyError)"
  by (auto simp: feature_list_def u_one_loop_eq u_zero_loop_eq)

lemma distinct_policy: "distinct (u_one_features @ u_zero_features)"
  by (simp add: u_one_features_def u_zero_features_def)

lemma label_cell_in: "label_cell c \<Longrightarrow> py_in c [-1, 1] \<longleftrightarrow> c = Num (-1) \<or> c = Num 1"
  by (cases c) (auto simp: py_in_def)

lemma label_cell_eq: "label_cell c \<Longrightarrow> py_eq c 1 \<longleftrightarrow> c = Num 1"
  by (cases c) auto

text \<open>
  Claim C1. On a row whose five policy-governed columns hold label cells,
  \<open>feature_string\<close> returns the joined derived list, and a finding is in that list
  exactly when it is an uncertain-as-positive finding with raw value -1 or 1, or an
  uncertain-as-negative finding with raw value 1. A blank never puts a finding in it.
\<close>

theorem feature_string_label_set:
  assumes "\<forall>f\<in>set (u_one_features @ u_zero_features). \<exists>c. r f = Some c \<and> label_cell c"
  shows "\<exists>fl. feature_list r = Inr fl \<and> feature_string r = Inr (join '';'' fl) \<and>
           (\<forall>f. f \<in> set fl \<longleftrightarrow>
              (f \<in> set u_one_features \<and> (r f = Some (Num (-1)) \<or> r f = Some (Num 1))) \<or>
              (f \<in> set u_zero_features \<and> r f = Some (Num 1))) \<and>
           (\<forall>f. r f = Some NaN \<longrightarrow> f \<notin> set fl)"
proof -
  let ?fl = "filter (\<lambda>f. py_in (the (r f)) [-1, 1]) u_one_features
               @ filter (\<lambda>f. py_eq (the (r f)) 1) u_zero_features"
  from assms have present: "\<forall>f\<in>set (u_one_features @ u_zero_features). r f \<noteq> None"
    by fastforce
  then have fl: "feature_list r = Inr ?fl"
    by (simp add: feature_list_eq)
  then have fs: "feature_string r = Inr (join '';'' ?fl)"
    by (simp add: feature_string_def)
  have one: "py_in (the (r f)) [-1, 1] \<longleftrightarrow> r f = Some (Num (-1)) \<or> r f = Some (Num 1)"
    if "f \<in> set u_one_features" for f
  proof -
    from assms that obtain c where "r f = Some c" "label_cell c" by auto
    then show ?thesis by (simp add: label_cell_in)
  qed
  have zero: "py_eq (the (r f)) 1 \<longleftrightarrow> r f = Some (Num 1)"
    if "f \<in> set u_zero_features" for f
  proof -
    from assms that obtain c where "r f = Some c" "label_cell c" by auto
    then show ?thesis by (simp add: label_cell_eq)
  qed
  have mem: "f \<in> set ?fl \<longleftrightarrow>
      (f \<in> set u_one_features \<and> (r f = Some (Num (-1)) \<or> r f = Some (Num 1))) \<or>
      (f \<in> set u_zero_features \<and> r f = Some (Num 1))" for f
    using one zero by auto
  have nan: "f \<notin> set ?fl" if "r f = Some NaN" for f
    unfolding mem using that by simp
  from fl fs mem nan show ?thesis by blast
qed

theorem feature_string_label_set_witness:
  "(\<exists>fl. feature_list [''Atelectasis'' \<mapsto> Num (-1), ''Edema'' \<mapsto> NaN, ''Cardiomegaly'' \<mapsto> Num 1,
           ''Consolidation'' \<mapsto> Num (-1), ''Pleural Effusion'' \<mapsto> Num 0] = Inr fl
         \<and> ''Atelectasis'' \<in> set fl \<and> ''Edema'' \<notin> set fl \<and> ''Cardiomegaly'' \<in> set fl
         \<and> ''Consolidation'' \<notin> set fl \<and> ''Pleural Effusion'' \<notin> set fl)"
proof -
  let ?r = "[''Atelectasis'' \<mapsto> Num (-1), ''Edema'' \<mapsto> NaN, ''Cardiomegaly'' \<mapsto> Num 1,
           ''Consolidation'' \<mapsto> Num (-1), ''Pleural Effusion'' \<mapsto> Num 0]"
  have h: "\<forall>f\<in>set (u_one_features @ u_zero_features). \<exists>c. ?r f = Some c \<and> label_cell c"
    by (simp add: u_one_features_def u_zero_features_def)
  from feature_string_label_set [OF h] obtain fl where
    fl: "feature_list ?r = Inr fl"
    and mem: "\<forall>f. f \<in> set fl \<longleftrightarrow>
              (f \<in> set u_one_features \<and> (?r f = Some (Num (-1)) \<or> ?r f = Some (Num 1))) \<or>
              (f \<in> set u_zero_features \<and> ?r f = Some (Num 1))"
    by blast
  have "''Atelectasis'' \<in> set fl" "''Edema'' \<notin> set fl" "''Cardiomegaly'' \<in> set fl"
    "''Consolidation'' \<notin> set fl" "''Pleural Effusion'' \<notin> set fl"
    by (simp_all add: mem u_one_features_def u_zero_features_def)
  with fl show ?thesis by blast
qed

lemma subseq_policy:
  "subseq (filter P u_one_features @ filter Q u_zero_features) (u_one_features @ u_zero_features)"
  by (intro list_emb_append_mono subseq_filter_left)

lemma distinct_filtered_policy:
  "distinct (filter P u_one_features @ filter Q u_zero_features)"
  using distinct_policy by (auto simp: u_one_features_def u_zero_features_def)

lemma feature_list_Inr:
  assumes "feature_list r = Inr fl"
  shows "fl = filter (\<lambda>f. py_in (the (r f)) [-1, 1]) u_one_features
                  @ filter (\<lambda>f. py_eq (the (r f)) 1) u_zero_features"
  using assms by (simp add: feature_list_eq split: if_splits)

lemma apply_rows_Inr:
  "apply_rows f df = Inr col \<Longrightarrow> list_all2 (\<lambda>r c. \<exists>x. f r = Inr x \<and> c = Some x) df col"
  by (induction df arbitrary: col) (auto split: sum.splits)

lemma feature_string_column_nth:
  assumes "feature_string_column full_df = Inr col" and "j < length full_df"
    and "feature_string (full_df ! j) = Inr s"
  shows "col ! j = s"
proof -
  from assms(1) obtain ocol where o: "apply_rows feature_string full_df = Inr ocol"
    and col: "col = fillna '''' ocol"
    by (auto simp: feature_string_column_def split: sum.splits)
  from apply_rows_Inr [OF o] assms(2)
  have "\<exists>x. feature_string (full_df ! j) = Inr x \<and> ocol ! j = Some x" and "j < length ocol"
    by (auto simp: list_all2_conv_all_nth)
  with assms(3) col show ?thesis by (simp add: fillna_def)
qed

lemma join_concat: "join sep (x # xs) = x @ concat (map (\<lambda>y. sep @ y) xs)"
  by (induction xs arbitrary: x) simp_all

text \<open>
  Claim C3. The string \<open>feature_string\<close> returns is the derived list joined with
  \<open>;\<close>: nothing for the empty list, and otherwise the first finding followed by
  every further finding with a \<open>;\<close> before it. The list follows the order of the
  two rule lists (it is a subsequence of \<open>u_one_features\<close> followed by
  \<open>u_zero_features\<close>) and holds no finding twice. When it is empty the result is
  the empty string, a string value, and the entry of the column
  \<open>full_df['feature_string']\<close> for the row is that same string.
\<close>

theorem feature_string_serialization:
  assumes "feature_list r = Inr fl"
  shows "feature_string r = Inr (join '';'' fl) \<and>
         feature_string r =
           Inr (case fl of [] \<Rightarrow> '''' | x # xs \<Rightarrow> x @ concat (map (\<lambda>y. '';'' @ y) xs)) \<and>
         subseq fl (u_one_features @ u_zero_features) \<and> distinct fl \<and>
         (fl = [] \<longrightarrow> feature_string r = Inr '''') \<and>
         (\<forall>full_df col j. feature_string_column full_df = Inr col \<and> j < length full_df \<and>
              full_df ! j = r \<longrightarrow> col ! j = join '';'' fl)"
proof -
  have fs: "feature_string r = Inr (join '';'' fl)"
    using assms by (simp add: feature_string_def)
  have explicit: "feature_string r =
           Inr (case fl of [] \<Rightarrow> '''' | x # xs \<Rightarrow> x @ concat (map (\<lambda>y. '';'' @ y) xs))"
    unfolding fs by (cases fl) (simp_all only: join.simps(1) join_concat list.case)
  have sub: "subseq fl (u_one_features @ u_zero_features)"
    unfolding feature_list_Inr [OF assms] by (rule subseq_policy)
  have dist: "distinct fl"
    unfolding feature_list_Inr [OF assms] by (rule distinct_filtered_policy)
  have empty: "fl = [] \<longrightarrow> feature_string r = Inr ''''"
    using fs by simp
  have col: "\<forall>full_df col j. feature_string_column full_df = Inr col \<and> j < length full_df \<and>
              full_df ! j = r \<longrightarrow> col ! j = join '';'' fl"
    using fs feature_string_column_nth by blast
  from fs explicit sub dist empty col show ?thesis by blast
qed

theorem feature_string_serialization_witness:
  "feature_string [''Atelectasis'' \<mapsto> Num 0, ''Edema'' \<mapsto> Num 0, ''Cardiomegaly'' \<mapsto> Num (-1),
           ''Consolidation'' \<mapsto> Num 0, ''Pleural Effusion'' \<mapsto> NaN] = Inr ''''
   \<and> feature_string [''Atelectasis'' \<mapsto> Num (-1), ''Edema'' \<mapsto> Num 0, ''Cardiomegaly'' \<mapsto> Num 1,
           ''Consolidation'' \<mapsto> Num 0, ''Pleural Effusion'' \<mapsto> NaN] = Inr ''Atelectasis;Cardiomegaly''
   \<and> feature_string [''Atelectasis'' \<mapsto> Num 1, ''Edema'' \<mapsto> Num (-1), ''Cardiomegaly'' \<mapsto> Num 1,
           ''Consolidation'' \<mapsto> Num 1, ''Pleural Effusion'' \<mapsto> Num 1]
       = Inr ''Atelectasis;Edema;Cardiomegaly;Consolidation;Pleural Effusion''
   \<and> feature_string_column
        [[''Atelectasis'' \<mapsto> Num 0, ''Edema'' \<mapsto> Num 0, ''Cardiomegaly'' \<mapsto> Num (-1),
           ''Consolidation'' \<mapsto> Num 0, ''Pleural Effusion'' \<mapsto> NaN],
         [''Atelectasis'' \<mapsto> Num (-1), ''Edema'' \<mapsto> Num 0, ''Cardiomegaly'' \<mapsto> Num 1,
           ''Consolidation'' \<mapsto> Num 0, ''Pleural Effusion'' \<mapsto> NaN]]
       = Inr ['''', ''Atelectasis;Cardiomegaly'']"
proof -
  let ?r0 = "[''Atelectasis'' \<mapsto> Num 0, ''Edema'' \<mapsto> Num 0, ''Cardiomegaly'' \<mapsto> Num (-1),
           ''Consolidation'' \<mapsto> Num 0, ''Pleural Effusion'' \<mapsto> NaN]"
  let ?r2 = "[''Atelectasis'' \<mapsto> Num (-1), ''Edema'' \<mapsto> Num 0, ''Cardiomegaly'' \<mapsto> Num 1,
           ''Consolidation'' \<mapsto> Num 0, ''Pleural Effusion'' \<mapsto> NaN]"
  let ?r5 = "[''Atelectasis'' \<mapsto> Num 1, ''Edema'' \<mapsto> Num (-1), ''Cardiomegaly'' \<mapsto> Num 1,
           ''Consolidation'' \<mapsto> Num 1, ''Pleural Effusion'' \<mapsto> Num 1]"
  have h0: "feature_list ?r0 = Inr []"
    by (simp add: feature_list_def u_one_features_def u_zero_features_def py_in_def)
  have h2: "feature_list ?r2 = Inr [''Atelectasis'', ''Cardiomegaly'']"
    by (simp add: feature_list_def u_one_features_def u_zero_features_def py_in_def)
  have h5: "feature_list ?r5 = Inr [''Atelectasis'', ''Edema'', ''Cardiomegaly'', ''Consolidation'',
              ''Pleural Effusion'']"
    by (simp add: feature_list_def u_one_features_def u_zero_features_def py_in_def)
  from feature_string_serialization [OF h0] have a0: "feature_string ?r0 = Inr ''''"
    by simp
  from feature_string_serialization [OF h2, THEN conjunct2, THEN conjunct1]
  have a2: "feature_string ?r2 = Inr ''Atelectasis;Cardiomegaly''"
    by simp
  from feature_string_serialization [OF h5, THEN conjunct2, THEN conjunct1]
  have a5: "feature_string ?r5 = Inr ''Atelectasis;Edema;Cardiomegaly;Consolidation;Pleural Effusion''"
    by simp
  have c: "feature_string_column [?r0, ?r2] = Inr ['''', ''Atelectasis;Cardiomegaly'']"
    by (simp add: feature_string_column_def a0 a2 fillna_def)
  from a0 a2 a5 c show ?thesis by (intro conjI)
qed




text \<open>
  Claim C9. Two rows that agree on the five policy-governed columns get the same
  derived list and the same label string (or the same error), whatever their other
  columns hold.
\<close>

theorem feature_string_noninterference:
  assumes "\<forall>f\<in>set (u_one_features @ u_zero_features). r1 f = r2 f"
  shows "feature_list r1 = feature_list r2 \<and> feature_string r1 = feature_string r2"
proof -
  have one: "filter (\<lambda>f. py_in (the (r1 f)) [-1, 1]) u_one_features
           = filter (\<lambda>f. py_in (the (r2 f)) [-1, 1]) u_one_features"
    using assms by (intro filter_cong) auto
  have zero: "filter (\<lambda>f. py_eq (the (r1 f)) 1) u_zero_features
            = filter (\<lambda>f. py_eq (the (r2 f)) 1) u_zero_features"
    using assms by (intro filter_cong) auto
  have present: "(\<forall>f\<in>set (u_one_features @ u_zero_features). r1 f \<noteq> None)
             \<longleftrightarrow> (\<forall>f\<in>set (u_one_features @ u_zero_features). r2 f \<noteq> None)"
    using assms by auto
  have "feature_list r1 = feature_list r2"
    unfolding feature_list_eq one zero present ..
  then show ?thesis by (simp add: feature_string_def)
qed

theorem feature_string_noninterference_witness:
  "feature_string [''Path'' \<mapsto> Str ''CheXpert-v1.0-small/train/patient00001/study1/view1_frontal.jpg'',
       ''train_valid'' \<mapsto> Bool False, ''Fracture'' \<mapsto> Num 1,
       ''Atelectasis'' \<mapsto> Num (-1), ''Edema'' \<mapsto> NaN, ''Cardiomegaly'' \<mapsto> Num 1,
       ''Consolidation'' \<mapsto> Num (-1), ''Pleural Effusion'' \<mapsto> Num 0]
   = feature_string [''Path'' \<mapsto> Str ''CheXpert-v1.0-small/valid/patient64541/study1/view1_frontal.jpg'',
       ''train_valid'' \<mapsto> Bool True, ''Fracture'' \<mapsto> NaN,
       ''Atelectasis'' \<mapsto> Num (-1), ''Edema'' \<mapsto> NaN, ''Cardiomegaly'' \<mapsto> Num 1,
       ''Consolidation'' \<mapsto> Num (-1), ''Pleural Effusion'' \<mapsto> Num 0]"
proof -
  let ?r1 = "[''Path'' \<mapsto> Str ''CheXpert-v1.0-small/train/patient00001/study1/view1_frontal.jpg'',
       ''train_valid'' \<mapsto> Bool False, ''Fracture'' \<mapsto> Num 1,
       ''Atelectasis'' \<mapsto> Num (-1), ''Edema'' \<mapsto> NaN, ''Cardiomegaly'' \<mapsto> Num 1,
       ''Consolidation'' \<mapsto> Num (-1), ''Pleural Effusion'' \<mapsto> Num 0]"
  let ?r2 = "[''Path'' \<mapsto> Str ''CheXpert-v1.0-small/valid/patient64541/study1/view1_frontal.jpg'',
       ''train_valid'' \<mapsto> Bool True, ''Fracture'' \<mapsto> NaN,
       ''Atelectasis'' \<mapsto> Num (-1), ''Edema'' \<mapsto> NaN, ''Cardiomegaly'' \<mapsto> Num 1,
       ''Consolidation'' \<mapsto> Num (-1), ''Pleural Effusion'' \<mapsto> Num 0]"
  have h: "\<forall>f\<in>set (u_one_features @ u_zero_features). ?r1 f = ?r2 f"
    by (simp add: u_one_features_def u_zero_features_def)
  from feature_string_noninterference [OF h] show ?thesis by (rule conjunct2)
qed

section \<open>Properties of the identifier derivation\<close>

lemma less_fold_max:
  "k < fold max xs (a::nat) \<longleftrightarrow> k < a \<or> (\<exists>x\<in>set xs. k < x)"
  by (induction xs arbitrary: a) auto

lemma le_fold_max: "(x::nat) \<in> set xs \<Longrightarrow> x \<le> fold max xs a"
  using less_fold_max [of "fold max xs a" xs a] by (auto simp: not_less)

lemma padded_cell:
  assumes "k < w" and "length q \<le> w"
  shows "(if k < length (map Some q @ replicate (w - length q) None)
          then (map Some q @ replicate (w - length q) None) ! k else None)
       = (if k < length q then Some (q ! k) else None)"
  using assms by (auto simp: nth_append)

lemma frame_column_expand:
  "frame_column k (str_split_expand sep n col) =
     (if \<exists>p\<in>set col. k < length (str_split sep n p)
      then Inr (map (\<lambda>p. if k < length (str_split sep n p)
                          then Some (str_split sep n p ! k) else None) col)
      else Inl KeyError)"
proof -
  define w where "w = fold max (map length (map (str_split sep n) col)) 0"
  have w: "k < w \<longleftrightarrow> (\<exists>p\<in>set col. k < length (str_split sep n p))"
    by (simp add: w_def less_fold_max)
  have le: "length (str_split sep n p) \<le> w" if "p \<in> set col" for p
    unfolding w_def using that by (intro le_fold_max) simp
  have fr: "frame_column k (str_split_expand sep n col) =
      (if k < w
       then Inr (map (\<lambda>p. if k < length (map Some (str_split sep n p)
                                     @ replicate (w - length (str_split sep n p)) None)
                           then (map Some (str_split sep n p)
                                     @ replicate (w - length (str_split sep n p)) None) ! k
                           else None) col)
       else Inl KeyError)"
    by (simp add: frame_column_def str_split_expand_def Let_def w_def o_def)
  show ?thesis
  proof (cases "k < w")
    case True
    then have "map (\<lambda>p. if k < length (map Some (str_split sep n p)
                                     @ replicate (w - length (str_split sep n p)) None)
                           then (map Some (str_split sep n p)
                                     @ replicate (w - length (str_split sep n p)) None) ! k
                           else None) col
        = map (\<lambda>p. if k < length (str_split sep n p)
                          then Some (str_split sep n p ! k) else None) col"
      by (intro map_cong refl padded_cell le)
    with True show ?thesis unfolding fr using w by simp
  next
    case False
    then show ?thesis unfolding fr using w by simp
  qed
qed

lemma str_split_segment:
  "sep \<notin> set a \<Longrightarrow> str_split sep (Suc n) (a @ sep # s) = a # str_split sep n s"
  by (induction a) auto

lemma str_split_3_segments:
  assumes "sep \<notin> set a" "sep \<notin> set b" "sep \<notin> set c"
  shows "str_split sep (Suc (Suc (Suc n))) (a @ sep # b @ sep # c @ sep # s)
           = [a, b, c] @ str_split sep n s"
  using assms by (simp add: str_split_segment)

lemma patient_segment:
  assumes "sep \<notin> set a" "sep \<notin> set b" "sep \<notin> set c"
  shows "str_split sep 3 (a @ sep # b @ sep # c @ sep # s) ! 2 = c"
proof -
  have "str_split sep 3 (a @ sep # b @ sep # c @ sep # s) = [a, b, c] @ str_split sep 0 s"
    using str_split_3_segments [OF assms, of 0 s] by (simp only: numeral_3_eq_3)
  then show ?thesis by simp
qed

lemma study_segment:
  assumes "sep \<notin> set a" "sep \<notin> set b" "sep \<notin> set c" "sep \<notin> set d"
  shows "str_split sep 4 (a @ sep # b @ sep # c @ sep # d @ sep # s) ! 3 = d"
proof -
  have four: "(4::nat) = Suc (Suc (Suc (Suc 0)))" by simp
  have "str_split sep (Suc (Suc (Suc (Suc 0)))) (a @ sep # b @ sep # c @ sep # d @ sep # s)
          = [a, b, c] @ str_split sep (Suc 0) (d @ sep # s)"
    by (rule str_split_3_segments [OF assms(1-3)])
  also have "str_split sep (Suc 0) (d @ sep # s) = d # str_split sep 0 s"
    by (rule str_split_segment [OF assms(4)])
  finally have "str_split sep 4 (a @ sep # b @ sep # c @ sep # d @ sep # s)
          = [a, b, c, d] @ str_split sep 0 s"
    unfolding four by simp
  then show ?thesis by simp
qed

text \<open>
  Claim C6, as stated, fails: in a table where one path has all its segments and
  another has none after the first, both identifier columns are built without any
  error, and the short path gets a missing patient and a missing study.
\<close>

theorem identifier_columns_counterexample:
  "patient_column [''CheXpert-v1.0-small/valid/patient64541/study1/view1_frontal.jpg'', ''valid'']
     = Inr [Some ''patient64541'', None]
   \<and> study_column [''CheXpert-v1.0-small/valid/patient64541/study1/view1_frontal.jpg'', ''valid'']
     = Inr [Some ''study1'', None]"
  by code_simp

text \<open>
  Claim C6, amended. The patient (study) column is built whenever some path of the
  table splits into more than two (three) pieces, and then every path gets its third
  (fourth) piece, or a missing value when it has none; when no path of the table has
  the piece, looking the column up is a \<open>KeyError\<close>. On a path
  \<open>a/b/c/d/rest\<close> whose first four segments hold no slash, the patient is \<open>c\<close> and
  the study is \<open>d\<close>.
\<close>

theorem identifier_columns:
  "patient_column Path =
     (if list_ex (\<lambda>p. 2 < length (str_split CHR ''/'' 3 p)) Path
      then Inr (map (\<lambda>p. if 2 < length (str_split CHR ''/'' 3 p)
                          then Some (str_split CHR ''/'' 3 p ! 2) else None) Path)
      else Inl KeyError)
   \<and> study_column Path =
     (if list_ex (\<lambda>p. 3 < length (str_split CHR ''/'' 4 p)) Path
      then Inr (map (\<lambda>p. if 3 < length (str_split CHR ''/'' 4 p)
                          then Some (str_split CHR ''/'' 4 p ! 3) else None) Path)
      else Inl KeyError)
   \<and> (CHR ''/'' \<notin> set a \<and> CHR ''/'' \<notin> set b \<and> CHR ''/'' \<notin> set c \<and> CHR ''/'' \<notin> set d
        \<longrightarrow> str_split CHR ''/'' 3 (a @ CHR ''/'' # b @ CHR ''/'' # c @ CHR ''/'' # d @ CHR ''/'' # rest) ! 2 = c
          \<and> str_split CHR ''/'' 4 (a @ CHR ''/'' # b @ CHR ''/'' # c @ CHR ''/'' # d @ CHR ''/'' # rest) ! 3 = d)"
proof (intro conjI impI)
  show "patient_column Path =
     (if list_ex (\<lambda>p. 2 < length (str_split CHR ''/'' 3 p)) Path
      then Inr (map (\<lambda>p. if 2 < length (str_split CHR ''/'' 3 p)
                          then Some (str_split CHR ''/'' 3 p ! 2) else None) Path)
      else Inl KeyError)"
    unfolding patient_column_def frame_column_expand list_ex_iff ..
  show "study_column Path =
     (if list_ex (\<lambda>p. 3 < length (str_split CHR ''/'' 4 p)) Path
      then Inr (map (\<lambda>p. if 3 < length (str_split CHR ''/'' 4 p)
                          then Some (str_split CHR ''/'' 4 p ! 3) else None) Path)
      else Inl KeyError)"
    unfolding study_column_def frame_column_expand list_ex_iff ..
next
  assume h: "CHR ''/'' \<notin> set a \<and> CHR ''/'' \<notin> set b \<and> CHR ''/'' \<notin> set c \<and> CHR ''/'' \<notin> set d"
  then show "str_split CHR ''/'' 3 (a @ CHR ''/'' # b @ CHR ''/'' # c @ CHR ''/'' # d @ CHR ''/'' # rest) ! 2 = c"
    by (intro patient_segment) simp_all
  from h show "str_split CHR ''/'' 4 (a @ CHR ''/'' # b @ CHR ''/'' # c @ CHR ''/'' # d @ CHR ''/'' # rest) ! 3 = d"
    by (intro study_segment) simp_all
qed


theorem identifier_columns_witness:
  "str_split CHR ''/'' 3 (''CheXpert-v1.0-small'' @ CHR ''/'' # ''valid'' @ CHR ''/'' #
       ''patient64541'' @ CHR ''/'' # ''study1'' @ CHR ''/'' # ''view1_frontal.jpg'') ! 2
     = ''patient64541''
   \<and> str_split CHR ''/'' 4 (''CheXpert-v1.0-small'' @ CHR ''/'' # ''valid'' @ CHR ''/'' #
       ''patient64541'' @ CHR ''/'' # ''study1'' @ CHR ''/'' # ''view1_frontal.jpg'') ! 3
     = ''study1''"
proof -
  have h: "CHR ''/'' \<notin> set ''CheXpert-v1.0-small'' \<and> CHR ''/'' \<notin> set ''valid'' \<and>
           CHR ''/'' \<notin> set ''patient64541'' \<and> CHR ''/'' \<notin> set ''study1''"
    by simp
  show ?thesis
    by (rule identifier_columns [of "[]" "''CheXpert-v1.0-small''" "''valid''" "''patient64541''"
          "''study1''" "''view1_frontal.jpg''", THEN conjunct2, THEN conjunct2, THEN mp, OF h])
qed

section \<open>Properties of the study-level aggregation\<close>

lemma row_max_commute: "row_max a b = row_max b a"
  by (auto simp: row_max_def list_eq_iff_nth_eq max.commute)

lemma row_max_assoc: "row_max (row_max a b) c = row_max a (row_max b c)"
  by (auto simp: row_max_def list_eq_iff_nth_eq max.assoc)

lemma row_max_idem: "row_max a a = a"
  by (auto simp: row_max_def list_eq_iff_nth_eq)

lemma length_row_max: "length (row_max a b) = min (length a) (length b)"
  by (simp add: row_max_def)

lemma nth_row_max:
  "i < length a \<Longrightarrow> i < length b \<Longrightarrow> row_max a b ! i = max (a ! i) (b ! i)"
  by (simp add: row_max_def)

lemma row_max_left_commute: "row_max (row_max a b) c = row_max (row_max a c) b"
  by (metis row_max_assoc row_max_commute)

text \<open>The loop of \<open>rows_max\<close> from any starting row.\<close>

lemma fold_row_max_start:
  "fold (\<lambda>x acc. row_max acc x) xs (row_max a b) = row_max (fold (\<lambda>x acc. row_max acc x) xs a) b"
proof (induction xs arbitrary: a)
  case Nil
  show ?case by simp
next
  case (Cons x xs)
  have "fold (\<lambda>x acc. row_max acc x) (x # xs) (row_max a b)
          = fold (\<lambda>x acc. row_max acc x) xs (row_max (row_max a x) b)"
    by (simp add: row_max_left_commute)
  also have "\<dots> = row_max (fold (\<lambda>x acc. row_max acc x) xs (row_max a x)) b"
    by (rule Cons.IH)
  finally show ?case by simp
qed

lemma fold_row_max_absorb_start:
  "row_max (fold (\<lambda>x acc. row_max acc x) xs a) a = fold (\<lambda>x acc. row_max acc x) xs a"
  using fold_row_max_start [of xs a a] by (simp add: row_max_idem)

lemma fold_row_max_absorb:
  "x \<in> set xs \<Longrightarrow>
     row_max (fold (\<lambda>x acc. row_max acc x) xs a) x = fold (\<lambda>x acc. row_max acc x) xs a"
proof (induction xs arbitrary: a)
  case Nil
  then show ?case by simp
next
  case (Cons y ys)
  show ?case
  proof (cases "x = y")
    case True
    have "row_max (fold (\<lambda>x acc. row_max acc x) ys (row_max a y)) y
            = fold (\<lambda>x acc. row_max acc x) ys (row_max (row_max a y) y)"
      by (simp add: fold_row_max_start)
    also have "row_max (row_max a y) y = row_max a y"
      by (simp add: row_max_assoc row_max_idem)
    finally show ?thesis using True by simp
  next
    case False
    with Cons.prems have "x \<in> set ys" by simp
    then show ?thesis by (simp add: Cons.IH)
  qed
qed

lemma fold_row_max_mset:
  assumes "mset xs = mset ys"
  shows "fold (\<lambda>x acc. row_max acc x) xs a = fold (\<lambda>x acc. row_max acc x) ys a"
proof (rule fold_multiset_equiv [THEN fun_cong])
  show "(\<lambda>acc. row_max acc x) \<circ> (\<lambda>acc. row_max acc y) = (\<lambda>acc. row_max acc y) \<circ> (\<lambda>acc. row_max acc x)"
    for x y :: "'a list"
    by (auto simp: fun_eq_iff row_max_left_commute)
  show "mset xs = mset ys" by (rule assms)
qed

lemma rows_max_Cons_fold:
  "rows_max (r # rs) = fold (\<lambda>x acc. row_max acc x) (r # rs) r"
  by (simp add: row_max_idem)

lemma rows_max_mset:
  assumes "mset xs = mset ys"
  shows "rows_max xs = rows_max ys"
proof (cases xs)
  case Nil
  with assms show ?thesis by simp
next
  case (Cons r rs)
  with assms obtain r' rs' where ys: "ys = r' # rs'"
    by (cases ys) auto
  have "set xs = set ys"
    by (rule mset_eq_setD [OF assms])
  with Cons have r_in: "r \<in> set ys"
    by auto
  have "rows_max xs = fold (\<lambda>x acc. row_max acc x) xs r"
    unfolding Cons by (rule rows_max_Cons_fold)
  also have "\<dots> = fold (\<lambda>x acc. row_max acc x) ys r"
    by (rule fold_row_max_mset [OF assms])
  also have "\<dots> = fold (\<lambda>x acc. row_max acc x) rs' (row_max r' r)"
    by (simp add: ys row_max_commute)
  also have "\<dots> = row_max (fold (\<lambda>x acc. row_max acc x) rs' r') r"
    by (rule fold_row_max_start)
  also have "\<dots> = fold (\<lambda>x acc. row_max acc x) rs' r'"
  proof (cases "r = r'")
    case True
    then show ?thesis by (simp add: fold_row_max_absorb_start)
  next
    case False
    with r_in ys have "r \<in> set rs'" by simp
    then show ?thesis by (rule fold_row_max_absorb)
  qed
  finally show ?thesis by (simp add: ys)
qed

lemma rows_max_snoc: "xs \<noteq> [] \<Longrightarrow> rows_max (xs @ [x]) = row_max (rows_max xs) x"
  by (cases xs) simp_all

text \<open>Keys and groups.\<close>

lemma set_map_filter_key: "set (List.map_filter f xs) = {y. \<exists>x\<in>set xs. f x = Some y}"
  by (induction xs) (auto split: option.splits)

lemma set_group_keys: "set (group_keys df) = {k. \<exists>r\<in>set df. row_key r = Some k}"
  by (simp add: group_keys_def set_map_filter_key)

lemma group_keys_sorted_list: "group_keys df = sorted_list_of_set {k. \<exists>r\<in>set df. row_key r = Some k}"
proof -
  have "group_keys df = sorted_list_of_set (set (List.map_filter row_key df))"
    by (simp add: group_keys_def sorted_list_of_set_sort_remdups)
  also have "set (List.map_filter row_key df) = {k. \<exists>r\<in>set df. row_key r = Some k}"
    by (rule set_map_filter_key)
  finally show ?thesis .
qed

lemma sorted_group_keys: "sorted (group_keys df)"
  by (simp add: group_keys_def)

lemma distinct_group_keys: "distinct (group_keys df)"
  by (simp add: group_keys_def)

lemma group_keys_mset:
  assumes "mset df = mset df'"
  shows "group_keys df = group_keys df'"
  unfolding group_keys_sorted_list mset_eq_setD [OF assms] ..

lemma group_rows_mset:
  assumes "mset df = mset df'"
  shows "mset (group_rows k df) = mset (group_rows k df')"
  unfolding group_rows_def mset_map mset_filter assms ..

lemma group_rows_nonempty: "k \<in> set (group_keys df) \<Longrightarrow> group_rows k df \<noteq> []"
  by (auto simp: set_group_keys group_rows_def filter_empty_conv)

lemma set_group_rows: "set (group_rows k df) = {vals r | r. r \<in> set df \<and> row_key r = Some k}"
  by (auto simp: group_rows_def)

lemma groupby_max_mset:
  assumes "mset df = mset df'"
  shows "groupby_max df = groupby_max df'"
proof -
  have "rows_max (group_rows k df) = rows_max (group_rows k df')" for k
    by (rule rows_max_mset [OF group_rows_mset [OF assms]])
  then show ?thesis
    by (simp add: groupby_max_def group_keys_mset [OF assms])
qed

lemma map_fst_groupby_max: "map fst (groupby_max df) = group_keys df"
  by (simp add: groupby_max_def o_def)

lemma map_of_groupby_max:
  "map_of (groupby_max df) k =
     (if k \<in> set (group_keys df) then Some (rows_max (group_rows k df)) else None)"
  by (simp add: groupby_max_def map_of_map_restrict restrict_map_def)

lemma groupby_max_member:
  "(k, v) \<in> set (groupby_max df) \<longleftrightarrow> k \<in> set (group_keys df) \<and> v = rows_max (group_rows k df)"
  by (auto simp: groupby_max_def)


text \<open>The aggregate of a group is the maximum of every column.\<close>

lemma Max_insert_max:
  "finite S \<Longrightarrow> Max (insert (max p q) S) = Max (insert p (insert q S))"
  by (cases "S = {}") (simp_all add: max.assoc)

lemma fold_row_max_nth:
  assumes "length a = n" and "\<forall>x\<in>set xs. length x = n" and "i < n"
  shows "length (fold (\<lambda>x acc. row_max acc x) xs a) = n \<and>
         fold (\<lambda>x acc. row_max acc x) xs a ! i = Max (insert (a ! i) ((\<lambda>r. r ! i) ` set xs))"
  using assms
proof (induction xs arbitrary: a)
  case Nil
  then show ?case by simp
next
  case (Cons x xs)
  have len: "length (row_max a x) = n"
    using Cons.prems by (simp add: length_row_max)
  have nth: "row_max a x ! i = max (a ! i) (x ! i)"
    using Cons.prems by (simp add: nth_row_max)
  from Cons.IH [OF len] Cons.prems
  have "length (fold (\<lambda>x acc. row_max acc x) xs (row_max a x)) = n"
    and "fold (\<lambda>x acc. row_max acc x) xs (row_max a x) ! i
           = Max (insert (row_max a x ! i) ((\<lambda>r. r ! i) ` set xs))"
    by simp_all
  then show ?case
    by (simp add: nth Max_insert_max)
qed

lemma rows_max_nth:
  assumes "xs \<noteq> []" and "\<forall>x\<in>set xs. length x = n" and "i < n"
  shows "length (rows_max xs) = n \<and> rows_max xs ! i = Max ((\<lambda>r. r ! i) ` set xs)"
proof -
  from assms(1) obtain r rs where xs: "xs = r # rs"
    by (cases xs) auto
  from assms(2) have "length r = n" and "\<forall>x\<in>set rs. length x = n"
    by (simp_all add: xs)
  from fold_row_max_nth [OF this assms(3)] show ?thesis
    by (simp add: xs)
qed

lemma length_rows_max:
  assumes "xs \<noteq> []" and "\<forall>x\<in>set xs. length x = n"
  shows "length (rows_max xs) = n"
proof -
  from assms(1) obtain r rs where xs: "xs = r # rs"
    by (cases xs) auto
  have "length (fold (\<lambda>x acc. row_max acc x) ys a) = n"
    if "length a = n" "\<forall>x\<in>set ys. length x = n" for ys and a :: "'a list"
    using that by (induction ys arbitrary: a) (simp_all add: length_row_max)
  with assms(2) show ?thesis by (simp add: xs)
qed

lemma filter_eq_singleton:
  "distinct xs \<Longrightarrow> x \<in> set xs \<Longrightarrow> filter (\<lambda>y. y = x) xs = [x]"
  by (induction xs) (auto simp: filter_empty_conv)

lemma row_key_reset: "row_key \<lparr>patient = Some (fst k), study = Some (snd k), vals = v\<rparr> = Some k"
  by (simp add: row_key_def)

lemma reset_index_groupby_max:
  "reset_index (groupby_max df) =
     map (\<lambda>k. \<lparr>patient = Some (fst k), study = Some (snd k), vals = rows_max (group_rows k df)\<rparr>)
       (group_keys df)"
  by (simp add: reset_index_def groupby_max_def)

lemma map_filter_row_key_reset:
  "List.map_filter row_key
     (map (\<lambda>k. \<lparr>patient = Some (fst k), study = Some (snd k), vals = f k\<rparr>) ks) = ks"
  by (induction ks) (simp_all add: row_key_reset)

lemma group_keys_reset_index: "group_keys (reset_index (groupby_max df)) = group_keys df"
proof -
  have "group_keys (reset_index (groupby_max df)) = sort (remdups (group_keys df))"
    unfolding reset_index_groupby_max
    by (simp add: group_keys_def [of "map f ks" for f ks] map_filter_row_key_reset)
  also have "\<dots> = group_keys df"
    using distinct_group_keys [of df] sorted_group_keys [of df]
    by (simp add: distinct_remdups_id sort_key_id_if_sorted)
  finally show ?thesis .
qed

lemma group_rows_reset_index:
  assumes "k \<in> set (group_keys df)"
  shows "group_rows k (reset_index (groupby_max df)) = [rows_max (group_rows k df)]"
proof -
  have "group_rows k (reset_index (groupby_max df))
          = map (\<lambda>k. rows_max (group_rows k df)) (filter (\<lambda>k'. k' = k) (group_keys df))"
    unfolding reset_index_groupby_max group_rows_def
    by (simp add: filter_map o_def row_key_reset)
  also have "filter (\<lambda>k'. k' = k) (group_keys df) = [k]"
    by (rule filter_eq_singleton [OF distinct_group_keys assms])
  finally show ?thesis by simp
qed

text \<open>
  Claim C8. Aggregating the aggregated table, put back into frame form by
  \<open>reset_index\<close> as \<open>get_preds_per_study\<close> does, gives the aggregates of the
  original table.
\<close>

theorem groupby_max_idempotent:
  "groupby_max (reset_index (groupby_max df)) = groupby_max df"
proof -
  let ?df' = "reset_index (groupby_max df)"
  have "groupby_max ?df' = map (\<lambda>k. (k, rows_max (group_rows k ?df'))) (group_keys ?df')"
    by (rule groupby_max_def)
  also have "\<dots> = map (\<lambda>k. (k, rows_max (group_rows k ?df'))) (group_keys df)"
    by (simp only: group_keys_reset_index)
  also have "\<dots> = map (\<lambda>k. (k, rows_max (group_rows k df))) (group_keys df)"
    by (rule map_cong) (simp_all add: group_rows_reset_index)
  also have "\<dots> = groupby_max df"
    by (simp only: groupby_max_def)
  finally show ?thesis .
qed

lemma group_keys_snoc:
  assumes "row_key r = Some k" and "k \<in> set (group_keys df)"
  shows "group_keys (df @ [r]) = group_keys df"
proof -
  have "{k'. \<exists>r'\<in>set (df @ [r]). row_key r' = Some k'} = {k'. \<exists>r'\<in>set df. row_key r' = Some k'}"
    using assms by (auto simp: set_group_keys)
  then show ?thesis by (simp only: group_keys_sorted_list)
qed

lemma group_rows_snoc:
  "group_rows k' (df @ [r]) = group_rows k' df @ (if row_key r = Some k' then [vals r] else [])"
  by (simp add: group_rows_def)

text \<open>
  Claim C10. Appending a row to an existing group of a table replaces the aggregate
  of that group by its column-wise maximum with the new row, which is nowhere
  smaller than the old aggregate; the aggregates of all other groups and the list of
  groups stay as they were.
\<close>

theorem groupby_max_monotone:
  assumes "row_key r = Some k"
    and "map_of (groupby_max df) k = Some v"
    and "length (vals r) = length v"
  shows "map_of (groupby_max (df @ [r])) k = Some (map2 max v (vals r)) \<and>
         length (map2 max v (vals r)) = length v \<and>
         (\<forall>i<length v. v ! i \<le> map2 max v (vals r) ! i) \<and>
         (\<forall>k'. k' \<noteq> k \<longrightarrow> map_of (groupby_max (df @ [r])) k' = map_of (groupby_max df) k') \<and>
         map fst (groupby_max (df @ [r])) = map fst (groupby_max df)"
proof -
  from assms(2) have k: "k \<in> set (group_keys df)" and v: "v = rows_max (group_rows k df)"
    by (simp_all add: map_of_groupby_max split: if_splits)
  have keys: "group_keys (df @ [r]) = group_keys df"
    by (rule group_keys_snoc [OF assms(1) k])
  have "rows_max (group_rows k (df @ [r])) = row_max (rows_max (group_rows k df)) (vals r)"
    using group_rows_nonempty [OF k] assms(1) by (simp add: group_rows_snoc rows_max_snoc)
  then have new: "map_of (groupby_max (df @ [r])) k = Some (map2 max v (vals r))"
    using k by (simp add: map_of_groupby_max keys v row_max_def)
  have len: "length (map2 max v (vals r)) = length v"
    using assms(3) by simp
  have mono: "\<forall>i<length v. v ! i \<le> map2 max v (vals r) ! i"
    using assms(3) by simp
  have other: "map_of (groupby_max (df @ [r])) k' = map_of (groupby_max df) k'" if "k' \<noteq> k" for k'
    using that assms(1) by (simp add: map_of_groupby_max keys group_rows_snoc)
  have fst: "map fst (groupby_max (df @ [r])) = map fst (groupby_max df)"
    by (simp only: map_fst_groupby_max keys)
  from new len mono other fst show ?thesis by blast
qed

theorem groupby_max_monotone_witness:
  "map_of (groupby_max
     ([\<lparr>patient = Some ''patient64541'', study = Some ''study1'', vals = [0.2, 0.7 :: real]\<rparr>,
       \<lparr>patient = Some ''patient64542'', study = Some ''study1'', vals = [0.5, 0.1]\<rparr>]
      @ [\<lparr>patient = Some ''patient64541'', study = Some ''study1'', vals = [0.9, 0.3]\<rparr>]))
     (''patient64541'', ''study1'')
   = Some [0.9, 0.7]"
proof -
  let ?df = "[\<lparr>patient = Some ''patient64541'', study = Some ''study1'', vals = [0.2, 0.7 :: real]\<rparr>,
       \<lparr>patient = Some ''patient64542'', study = Some ''study1'', vals = [0.5, 0.1]\<rparr>]"
  let ?r = "\<lparr>patient = Some ''patient64541'', study = Some ''study1'', vals = [0.9, 0.3 :: real]\<rparr>"
  have key: "row_key ?r = Some (''patient64541'', ''study1'')"
    by (simp add: row_key_def)
  have old: "map_of (groupby_max ?df) (''patient64541'', ''study1'') = Some [0.2, 0.7]"
    by code_simp
  have len: "length (vals ?r) = length [0.2, 0.7 :: real]"
    by simp
  from groupby_max_monotone [OF key old len]
  have "map_of (groupby_max (?df @ [?r])) (''patient64541'', ''study1'')
          = Some (map2 max [0.2, 0.7] (vals ?r))"
    by (rule conjunct1)
  then show ?thesis by simp
qed

section \<open>Properties of the study-level evaluation\<close>

text \<open>The metric.\<close>

lemma roc_auc_score_degenerate:
  assumes "(\<forall>y\<in>set y_true. y) \<or> (\<forall>y\<in>set y_true. \<not> y)"
  shows "roc_auc_score y_true y_score = Inl DegenerateLabelError"
proof -
  have "filter fst (zip y_true y_score) = [] \<or> filter (\<lambda>p. \<not> fst p) (zip y_true y_score) = []"
    using assms by (auto simp: filter_empty_conv dest: set_zip_leftD)
  then show ?thesis
    by (auto simp: roc_auc_score_def Let_def)
qed

lemma roc_auc_score_error: "roc_auc_score y_true y_score = Inl e \<Longrightarrow> e = DegenerateLabelError"
  by (auto simp: roc_auc_score_def Let_def split: if_splits)





text \<open>Columns of well-shaped arrays.\<close>

lemma matrix_column_ok:
  assumes "i < n" and "\<forall>r\<in>set a. length r = n"
  shows "matrix_column n i a = Inr (map (\<lambda>r. r ! i) a)"
  using assms by (simp add: matrix_column_def list_all_iff)

lemma values_of_groupby_max:
  "values_of (groupby_max df) = map (\<lambda>k. rows_max (group_rows k df)) (group_keys df)"
  by (simp add: values_of_def groupby_max_def o_def)

lemma length_values_of_groupby_max:
  assumes "\<forall>r\<in>set df. length (vals r) = n" and "v \<in> set (values_of (groupby_max df))"
  shows "length v = n"
proof -
  from assms(2) obtain k where k: "k \<in> set (group_keys df)" and v: "v = rows_max (group_rows k df)"
    by (auto simp: values_of_groupby_max)
  from assms(1) have "\<forall>x\<in>set (group_rows k df). length x = n"
    by (auto simp: set_group_rows)
  from length_rows_max [OF group_rows_nonempty [OF k] this] show ?thesis
    by (simp add: v)
qed

text \<open>The frame of predictions after the assignment loop.\<close>

lemma assign_preds_ok:
  assumes "length preds = length pdf" and "\<forall>p\<in>set preds. length p = n" and "i + length cs = n"
  shows "assign_preds n cs i preds pdf =
           Inr (map2 (\<lambda>r p. r\<lparr>vals := vals r @ take (length cs) (drop i p)\<rparr>) pdf preds)"
  using assms
proof (induction cs arbitrary: i pdf)
  case Nil
  then show ?case
    by (simp add: list_eq_iff_nth_eq)
next
  case (Cons c cs)
  let ?col = "map (\<lambda>p. p ! i) preds"
  let ?pdf = "map2 (\<lambda>r x. r\<lparr>vals := vals r @ [x]\<rparr>) pdf ?col"
  from Cons.prems have i: "i < n" by simp
  have col: "matrix_column n i preds = Inr ?col"
    by (rule matrix_column_ok [OF i Cons.prems(2)])
  have len: "length preds = length ?pdf"
    using Cons.prems(1) by simp
  have "assign_preds n (c # cs) i preds pdf = assign_preds n cs (Suc i) preds ?pdf"
    using Cons.prems(1) by (simp add: col)
  also have "\<dots> = Inr (map2 (\<lambda>r p. r\<lparr>vals := vals r @ take (length cs) (drop (Suc i) p)\<rparr>) ?pdf preds)"
    using Cons.prems by (intro Cons.IH [OF len]) simp_all
  also have "map2 (\<lambda>r p. r\<lparr>vals := vals r @ take (length cs) (drop (Suc i) p)\<rparr>) ?pdf preds
           = map2 (\<lambda>r p. r\<lparr>vals := vals r @ take (length (c # cs)) (drop i p)\<rparr>) pdf preds"
  proof (rule nth_equalityI)
    show "length (map2 (\<lambda>r p. r\<lparr>vals := vals r @ take (length cs) (drop (Suc i) p)\<rparr>) ?pdf preds)
        = length (map2 (\<lambda>r p. r\<lparr>vals := vals r @ take (length (c # cs)) (drop i p)\<rparr>) pdf preds)"
      by simp
  next
    fix j
    assume "j < length (map2 (\<lambda>r p. r\<lparr>vals := vals r @ take (length cs) (drop (Suc i) p)\<rparr>) ?pdf preds)"
    then have j: "j < length preds" "j < length pdf"
      by simp_all
    then have "i < length (preds ! j)"
      using Cons.prems(2) i by simp
    then have "drop i (preds ! j) = preds ! j ! i # drop (Suc i) (preds ! j)"
      by (simp add: Cons_nth_drop_Suc)
    with j show "map2 (\<lambda>r p. r\<lparr>vals := vals r @ take (length cs) (drop (Suc i) p)\<rparr>) ?pdf preds ! j
        = map2 (\<lambda>r p. r\<lparr>vals := vals r @ take (length (c # cs)) (drop i p)\<rparr>) pdf preds ! j"
      by simp
  qed
  finally show ?case .
qed

lemma preds_df_ok:
  assumes "length valid_preds = length df" and "\<forall>p\<in>set valid_preds. length p = length classes"
  shows "assign_preds (length classes) classes 0 valid_preds
           (map (\<lambda>r. \<lparr>patient = patient r, study = study r, vals = []\<rparr>) df)
         = Inr (map2 (\<lambda>r p. \<lparr>patient = patient r, study = study r, vals = p\<rparr>) df valid_preds)"
proof -
  let ?pdf = "map (\<lambda>r. \<lparr>patient = patient r, study = study r, vals = []\<rparr>) df"
  have "assign_preds (length classes) classes 0 valid_preds ?pdf
          = Inr (map2 (\<lambda>r p. r\<lparr>vals := vals r @ take (length classes) (drop 0 p)\<rparr>) ?pdf valid_preds)"
    using assms by (intro assign_preds_ok) simp_all
  also have "map2 (\<lambda>r p. r\<lparr>vals := vals r @ take (length classes) (drop 0 p)\<rparr>) ?pdf valid_preds
           = map2 (\<lambda>r p. \<lparr>patient = patient r, study = study r, vals = p\<rparr>) df valid_preds"
    using assms by (auto simp: list_eq_iff_nth_eq)
  finally show ?thesis .
qed

lemma validation_eval_ok:
  assumes "length valid_preds = length df" and "\<forall>p\<in>set valid_preds. length p = length classes"
  shows "validation_eval classes df valid_preds =
           auc_loop classes (values_of (groupby_max df))
             (values_of (groupby_max
                (map2 (\<lambda>r p. \<lparr>patient = patient r, study = study r, vals = p\<rparr>) df valid_preds)))
             [0 ..< length chexpert_targets]"
  by (simp add: validation_eval_def Let_def preds_df_ok [OF assms])


lemma set_preds_frame:
  assumes "length valid_preds = length (df :: 'b image_row list)"
    and "\<forall>p\<in>set valid_preds. length p = n"
  shows "\<forall>r\<in>set (map2 (\<lambda>r p. \<lparr>patient = patient r, study = study r, vals = p\<rparr>) df valid_preds).
           length (vals r) = n"
  using assms(2) by (auto dest: set_zip_rightD)

text \<open>The loop over the target findings.\<close>

lemma auc_loop_degenerate:
  assumes "\<forall>i\<in>set is. i < length classes"
    and "\<forall>v\<in>set acts. length v = length classes"
    and "\<forall>v\<in>set preds. length v = length classes"
    and "\<exists>i\<in>set is. (\<forall>v\<in>set acts. v ! i) \<or> (\<forall>v\<in>set acts. \<not> v ! i)"
  shows "auc_loop classes acts preds is = Inl DegenerateLabelError"
  using assms(1,4)
proof (induction "is")
  case Nil
  then show ?case by simp
next
  case (Cons i rest)
  from Cons.prems have i: "i < length classes" by simp
  have a: "matrix_column (length classes) i acts = Inr (map (\<lambda>r. r ! i) acts)"
    by (rule matrix_column_ok [OF i assms(2)])
  have p: "matrix_column (length classes) i preds = Inr (map (\<lambda>r. r ! i) preds)"
    by (rule matrix_column_ok [OF i assms(3)])
  show ?case
  proof (cases "roc_auc_score (map (\<lambda>r. r ! i) acts) (map (\<lambda>r. r ! i) preds)")
    case (Inl e)
    then have "e = DegenerateLabelError" by (rule roc_auc_score_error)
    with Inl show ?thesis by (simp add: i a p)
  next
    case (Inr auc)
    have "\<not> ((\<forall>v\<in>set acts. v ! i) \<or> (\<forall>v\<in>set acts. \<not> v ! i))"
    proof
      assume "(\<forall>v\<in>set acts. v ! i) \<or> (\<forall>v\<in>set acts. \<not> v ! i)"
      then have "(\<forall>y\<in>set (map (\<lambda>r. r ! i) acts). y) \<or> (\<forall>y\<in>set (map (\<lambda>r. r ! i) acts). \<not> y)"
        by auto
      from roc_auc_score_degenerate [OF this] Inr show False by simp
    qed
    with Cons.prems(2) have "\<exists>i\<in>set rest. (\<forall>v\<in>set acts. v ! i) \<or> (\<forall>v\<in>set acts. \<not> v ! i)"
      by auto
    moreover from Cons.prems(1) have "\<forall>i\<in>set rest. i < length classes"
      by simp
    ultimately have "auc_loop classes acts preds rest = Inl DegenerateLabelError"
      by (rule Cons.IH [rotated])
    with Inr show ?thesis by (simp add: i a p)
  qed
qed

text \<open>
  Claim C4. On a well-shaped input (every row of the frame and of the score tensor
  has one cell per class, the tensor has one row per image, and there are at least as
  many classes as target findings), if the aggregated ground truth of one of the
  target findings is all-positive or all-negative over the studies, then
  \<open>validation_eval\<close> returns no scores: it fails with \<open>DegenerateLabelError\<close>.
\<close>

theorem validation_eval_degenerate:
  assumes "\<forall>r\<in>set full_valid_df. length (vals r) = length classes"
    and "length valid_preds = length full_valid_df"
    and "\<forall>p\<in>set valid_preds. length p = length classes"
    and "length chexpert_targets \<le> length classes"
    and "i < length chexpert_targets"
    and "(\<forall>v\<in>set (values_of (groupby_max full_valid_df)). v ! i) \<or>
         (\<forall>v\<in>set (values_of (groupby_max full_valid_df)). \<not> v ! i)"
  shows "validation_eval classes full_valid_df valid_preds = Inl DegenerateLabelError"
proof -
  let ?preds_df = "map2 (\<lambda>r p. \<lparr>patient = patient r, study = study r, vals = p\<rparr>)
                     full_valid_df valid_preds"
  have acts: "\<forall>v\<in>set (values_of (groupby_max full_valid_df)). length v = length classes"
    using length_values_of_groupby_max [OF assms(1)] by blast
  have preds: "\<forall>v\<in>set (values_of (groupby_max ?preds_df)). length v = length classes"
    using length_values_of_groupby_max [OF set_preds_frame [OF assms(2,3)]] by blast
  have idx: "\<forall>j\<in>set [0 ..< length chexpert_targets]. j < length classes"
    using assms(4) by simp
  have ex: "\<exists>j\<in>set [0 ..< length chexpert_targets].
              (\<forall>v\<in>set (values_of (groupby_max full_valid_df)). v ! j) \<or>
              (\<forall>v\<in>set (values_of (groupby_max full_valid_df)). \<not> v ! j)"
    using assms(5,6) by (intro bexI [of _ i]) simp_all
  show ?thesis
    unfolding validation_eval_ok [OF assms(2,3)]
    by (rule auc_loop_degenerate [OF idx acts preds ex])
qed

theorem validation_eval_degenerate_witness:
  "validation_eval chexpert_targets
     [\<lparr>patient = Some ''patient64541'', study = Some ''study1'', vals = [False, True, False, False, True]\<rparr>,
      \<lparr>patient = Some ''patient64542'', study = Some ''study1'', vals = [False, False, False, True, False]\<rparr>,
      \<lparr>patient = Some ''patient64541'', study = Some ''study1'', vals = [False, False, True, False, False]\<rparr>]
     [[0.1, 0.8, 0.3, 0.2, 0.6], [0.4, 0.3, 0.2, 0.9, 0.1], [0.2, 0.5, 0.7, 0.1, 0.3]]
   = Inl DegenerateLabelError"
proof (rule validation_eval_degenerate [where i = 0])
  show "(\<forall>v\<in>set (values_of (groupby_max
     [\<lparr>patient = Some ''patient64541'', study = Some ''study1'', vals = [False, True, False, False, True]\<rparr>,
      \<lparr>patient = Some ''patient64542'', study = Some ''study1'', vals = [False, False, False, True, False]\<rparr>,
      \<lparr>patient = Some ''patient64541'', study = Some ''study1'', vals = [False, False, True, False, False]\<rparr>])). v ! 0) \<or>
     (\<forall>v\<in>set (values_of (groupby_max
     [\<lparr>patient = Some ''patient64541'', study = Some ''study1'', vals = [False, True, False, False, True]\<rparr>,
      \<lparr>patient = Some ''patient64542'', study = Some ''study1'', vals = [False, False, False, True, False]\<rparr>,
      \<lparr>patient = Some ''patient64541'', study = Some ''study1'', vals = [False, False, True, False, False]\<rparr>])). \<not> v ! 0)"
    by code_simp
qed (simp_all add: chexpert_targets_def)












section \<open>The aggregation inside the evaluation\<close>

lemma row_key_Some: "row_key r = Some (p, s) \<longleftrightarrow> patient r = Some p \<and> study r = Some s"
  by (auto simp: row_key_def split: option.splits)

lemma key_set_explicit:
  "{k. \<exists>r\<in>set df. row_key r = Some k}
     = {(p, s). \<exists>r\<in>set df. patient r = Some p \<and> study r = Some s}"
  by (auto simp: row_key_Some)

lemma mset_zip_left:
  assumes "length ys = length xs" and "length ys' = length xs'"
    and "mset (zip xs ys) = mset (zip xs' ys')"
  shows "mset xs = mset xs'"
proof -
  have "mset (map fst (zip xs ys)) = mset (map fst (zip xs' ys'))"
    unfolding mset_map assms(3) ..
  with assms(1,2) show ?thesis by simp
qed

lemma mset_zip_right:
  assumes "length ys = length xs" and "length ys' = length xs'"
    and "mset (zip xs ys) = mset (zip xs' ys')"
  shows "mset ys = mset ys'"
proof -
  have "mset (map snd (zip xs ys)) = mset (map snd (zip xs' ys'))"
    unfolding mset_map assms(3) ..
  with assms(1,2) show ?thesis by simp
qed

lemma mset_map2:
  assumes "mset (zip xs ys) = mset (zip xs' ys')"
  shows "mset (map2 f xs ys) = mset (map2 f xs' ys')"
  unfolding mset_map assms ..

lemma validation_eval_mset:
  assumes "length valid_preds = length df" and "length valid_preds' = length df'"
    and "\<forall>p\<in>set valid_preds. length p = length classes"
    and "mset (zip df valid_preds) = mset (zip df' valid_preds')"
  shows "validation_eval classes df valid_preds = validation_eval classes df' valid_preds'"
proof -
  have "set valid_preds = set valid_preds'"
    by (rule mset_eq_setD [OF mset_zip_right [OF assms(1,2,4)]])
  with assms(3) have len': "\<forall>p\<in>set valid_preds'. length p = length classes"
    by simp
  have acts: "groupby_max df = groupby_max df'"
    by (rule groupby_max_mset [OF mset_zip_left [OF assms(1,2,4)]])
  have preds: "groupby_max (map2 (\<lambda>r p. \<lparr>patient = patient r, study = study r, vals = p\<rparr>) df valid_preds)
             = groupby_max (map2 (\<lambda>r p. \<lparr>patient = patient r, study = study r, vals = p\<rparr>) df' valid_preds')"
    by (rule groupby_max_mset [OF mset_map2 [OF assms(4)]])
  show ?thesis
    unfolding validation_eval_ok [OF assms(1,3)] validation_eval_ok [OF assms(2) len'] acts preds ..
qed

text \<open>
  Claim C2. The aggregation has one entry per (patient, study) pair that occurs as
  the key of a row, the pairs in sorted order; the entry of a pair holds, for every
  column, the maximum of that column over the rows of that patient and study; and two
  tables with the same rows in any order get the same aggregates. On a well-shaped
  input \<open>validation_eval\<close> scores the columns of this one aggregation,
  \<open>groupby_max\<close>, of the ground-truth frame against those of the frame that holds
  the predicted scores under the same keys, so that permuting the images together
  with their score rows leaves its result unchanged.
\<close>

theorem groupby_max_permutation:
  assumes "mset df = mset df'"
  shows "groupby_max df = groupby_max df' \<and>
         map fst (groupby_max df)
           = sorted_list_of_set {(p, s). \<exists>r\<in>set df. patient r = Some p \<and> study r = Some s} \<and>
         (\<forall>p s v n i. ((p, s), v) \<in> set (groupby_max df) \<and> (\<forall>r\<in>set df. length (vals r) = n) \<and> i < n
            \<longrightarrow> length v = n \<and>
                v ! i = Max {vals r ! i | r. r \<in> set df \<and> patient r = Some p \<and> study r = Some s}) \<and>
         (\<forall>classes full_valid_df valid_preds full_valid_df' valid_preds'.
            length valid_preds = length full_valid_df \<and>
            length valid_preds' = length full_valid_df' \<and>
            (\<forall>p\<in>set valid_preds. length p = length classes) \<and>
            mset (zip full_valid_df valid_preds) = mset (zip full_valid_df' valid_preds')
            \<longrightarrow> validation_eval classes full_valid_df valid_preds
                  = auc_loop classes (values_of (groupby_max full_valid_df))
                      (values_of (groupby_max
                         (map2 (\<lambda>r p. \<lparr>patient = patient r, study = study r, vals = p\<rparr>)
                            full_valid_df valid_preds)))
                      [0 ..< length chexpert_targets] \<and>
                validation_eval classes full_valid_df valid_preds
                  = validation_eval classes full_valid_df' valid_preds')"
proof (intro conjI allI impI)
  show "groupby_max df = groupby_max df'"
    by (rule groupby_max_mset [OF assms])
  show "map fst (groupby_max df)
          = sorted_list_of_set {(p, s). \<exists>r\<in>set df. patient r = Some p \<and> study r = Some s}"
    by (simp only: map_fst_groupby_max group_keys_sorted_list key_set_explicit)
next
  fix p s v n i
  assume h: "((p, s), v) \<in> set (groupby_max df) \<and> (\<forall>r\<in>set df. length (vals r) = n) \<and> i < n"
  then have k: "(p, s) \<in> set (group_keys df)" and v: "v = rows_max (group_rows (p, s) df)"
    by (simp_all add: groupby_max_member)
  from h have len: "\<forall>x\<in>set (group_rows (p, s) df). length x = n"
    by (auto simp: set_group_rows)
  have img: "(\<lambda>r. r ! i) ` set (group_rows (p, s) df)
           = {vals r ! i | r. r \<in> set df \<and> patient r = Some p \<and> study r = Some s}"
    by (auto simp: set_group_rows row_key_Some)
  from h have "i < n" by simp
  from rows_max_nth [OF group_rows_nonempty [OF k] len this]
  show "length v = n"
    and "v ! i = Max {vals r ! i | r. r \<in> set df \<and> patient r = Some p \<and> study r = Some s}"
    by (simp_all add: v img)
next
  fix classes :: "string list" and full_valid_df full_valid_df' :: "bool image_row list"
    and valid_preds valid_preds' :: "real list list"
  assume h: "length valid_preds = length full_valid_df \<and>
            length valid_preds' = length full_valid_df' \<and>
            (\<forall>p\<in>set valid_preds. length p = length classes) \<and>
            mset (zip full_valid_df valid_preds) = mset (zip full_valid_df' valid_preds')"
  then show "validation_eval classes full_valid_df valid_preds
                  = auc_loop classes (values_of (groupby_max full_valid_df))
                      (values_of (groupby_max
                         (map2 (\<lambda>r p. \<lparr>patient = patient r, study = study r, vals = p\<rparr>)
                            full_valid_df valid_preds)))
                      [0 ..< length chexpert_targets]"
    by (intro validation_eval_ok) simp_all
  from h show "validation_eval classes full_valid_df valid_preds
                  = validation_eval classes full_valid_df' valid_preds'"
    by (intro validation_eval_mset) simp_all
qed

theorem groupby_max_permutation_witness:
  "groupby_max
     [\<lparr>patient = Some ''patient64542'', study = Some ''study1'', vals = [0.4, 0.3, 0.2, 0.9, 0.1 :: real]\<rparr>,
      \<lparr>patient = Some ''patient64541'', study = Some ''study1'', vals = [0.2, 0.5, 0.7, 0.1, 0.3]\<rparr>,
      \<lparr>patient = Some ''patient64541'', study = Some ''study2'', vals = [0.6, 0.1, 0.1, 0.3, 0.8]\<rparr>,
      \<lparr>patient = Some ''patient64541'', study = Some ''study1'', vals = [0.1, 0.8, 0.3, 0.2, 0.6]\<rparr>]
   = [((''patient64541'', ''study1''), [0.2, 0.8, 0.7, 0.2, 0.6]),
      ((''patient64541'', ''study2''), [0.6, 0.1, 0.1, 0.3, 0.8]),
      ((''patient64542'', ''study1''), [0.4, 0.3, 0.2, 0.9, 0.1])]
   \<and> validation_eval chexpert_targets
     [\<lparr>patient = Some ''patient64542'', study = Some ''study1'', vals = [True, False, False, True, False]\<rparr>,
      \<lparr>patient = Some ''patient64541'', study = Some ''study1'', vals = [False, False, True, False, False]\<rparr>,
      \<lparr>patient = Some ''patient64541'', study = Some ''study2'', vals = [True, False, True, False, True]\<rparr>,
      \<lparr>patient = Some ''patient64541'', study = Some ''study1'', vals = [False, True, False, False, True]\<rparr>]
     [[0.4, 0.3, 0.2, 0.9, 0.1], [0.2, 0.5, 0.7, 0.1, 0.3], [0.6, 0.1, 0.1, 0.3, 0.8],
      [0.1, 0.8, 0.3, 0.2, 0.6]]
   = Inr [(''Atelectasis'', 1), (''Cardiomegaly'', 1), (''Consolidation'', 1 / 2),
          (''Edema'', 1), (''Pleural Effusion'', 1)]"
proof -
  let ?p1 = "[0.1, 0.8, 0.3, 0.2, 0.6 :: real]"
  let ?p2 = "[0.4, 0.3, 0.2, 0.9, 0.1 :: real]"
  let ?p3 = "[0.2, 0.5, 0.7, 0.1, 0.3 :: real]"
  let ?p4 = "[0.6, 0.1, 0.1, 0.3, 0.8 :: real]"
  let ?a1 = "\<lparr>patient = Some ''patient64541'', study = Some ''study1'', vals = [False, True, False, False, True]\<rparr>"
  let ?a2 = "\<lparr>patient = Some ''patient64542'', study = Some ''study1'', vals = [True, False, False, True, False]\<rparr>"
  let ?a3 = "\<lparr>patient = Some ''patient64541'', study = Some ''study1'', vals = [False, False, True, False, False]\<rparr>"
  let ?a4 = "\<lparr>patient = Some ''patient64541'', study = Some ''study2'', vals = [True, False, True, False, True]\<rparr>"
  let ?s1 = "\<lparr>patient = Some ''patient64541'', study = Some ''study1'', vals = ?p1\<rparr>"
  let ?s2 = "\<lparr>patient = Some ''patient64542'', study = Some ''study1'', vals = ?p2\<rparr>"
  let ?s3 = "\<lparr>patient = Some ''patient64541'', study = Some ''study1'', vals = ?p3\<rparr>"
  let ?s4 = "\<lparr>patient = Some ''patient64541'', study = Some ''study2'', vals = ?p4\<rparr>"
  have perm: "mset [?s1, ?s2, ?s3, ?s4] = mset [?s2, ?s3, ?s4, ?s1]"
    by simp
  note inst = groupby_max_permutation [OF perm]
  have agg: "groupby_max [?s1, ?s2, ?s3, ?s4]
     = [((''patient64541'', ''study1''), [0.2, 0.8, 0.7, 0.2, 0.6]),
        ((''patient64541'', ''study2''), [0.6, 0.1, 0.1, 0.3, 0.8]),
        ((''patient64542'', ''study1''), [0.4, 0.3, 0.2, 0.9, 0.1])]"
    by code_simp
  have first: "groupby_max [?s2, ?s3, ?s4, ?s1]
     = [((''patient64541'', ''study1''), [0.2, 0.8, 0.7, 0.2, 0.6]),
        ((''patient64541'', ''study2''), [0.6, 0.1, 0.1, 0.3, 0.8]),
        ((''patient64542'', ''study1''), [0.4, 0.3, 0.2, 0.9, 0.1])]"
    using inst [THEN conjunct1] agg by simp
  have ev: "validation_eval chexpert_targets [?a1, ?a2, ?a3, ?a4] [?p1, ?p2, ?p3, ?p4]
     = Inr [(''Atelectasis'', 1), (''Cardiomegaly'', 1), (''Consolidation'', 1 / 2),
          (''Edema'', 1), (''Pleural Effusion'', 1)]"
    by code_simp
  have "validation_eval chexpert_targets [?a1, ?a2, ?a3, ?a4] [?p1, ?p2, ?p3, ?p4]
      = validation_eval chexpert_targets [?a2, ?a3, ?a4, ?a1] [?p2, ?p3, ?p4, ?p1]"
    by (rule inst [THEN conjunct2, THEN conjunct2, THEN conjunct2, rule_format, THEN conjunct2])
       (simp add: chexpert_targets_def)
  with ev have second: "validation_eval chexpert_targets [?a2, ?a3, ?a4, ?a1] [?p2, ?p3, ?p4, ?p1]
     = Inr [(''Atelectasis'', 1), (''Cardiomegaly'', 1), (''Consolidation'', 1 / 2),
          (''Edema'', 1), (''Pleural Effusion'', 1)]"
    by simp
  from first second show ?thesis by (rule conjI)
qed

end
